theory Spec2Isabelle
  imports Main "HOL-Library.Word"
begin

section \<open>StreamPay: the streaming-payment ledger of \<^verbatim>\<open>contracts/StreamPay.sol\<close>\<close>

text \<open>
  The contract is embedded function by function. Solidity's \<^verbatim>\<open>uint256\<close> is a
  256-bit word, \<^verbatim>\<open>address\<close> a 160-bit word and \<^verbatim>\<open>bytes4\<close> a 32-bit word.
  The compiler is \<^verbatim>\<open>^0.8.19\<close>, whose arithmetic is checked: an overflow, an
  underflow or a division by zero reverts the transaction with a panic. Every
  \<^verbatim>\<open>require\<close>, every panic and every failed token transfer is a branch that
  returns \<open>Inl\<close> of an error; a reverted call leaves no state behind.

  Left out, since no stream or grant depends on them: the events, the \<^verbatim>\<open>Ownable\<close>
  owner and \<^verbatim>\<open>supportsInterface\<close>. Each entry point runs to its end before the
  next one starts, which is what \<^verbatim>\<open>nonReentrant\<close> enforces for the stream operations.
\<close>

type_synonym uint256 = "256 word"
type_synonym address = "160 word"
type_synonym bytes4 = "32 word"

subsection \<open>Errors\<close>

text \<open>One constructor for each \<^verbatim>\<open>require\<close> message of the contract, in source order,
  then the panic of checked arithmetic and the revert of \<^verbatim>\<open>SafeERC20\<close>.\<close>

datatype error =
    DelegateIsZero            \<comment> \<open>"StreamPay: delegate is the zero address"\<close>
  | NotAuthorizedToCreate     \<comment> \<open>"StreamPay: not authorized to create stream on behalf"\<close>
  | RecipientIsZero           \<comment> \<open>"StreamPay: recipient is the zero address"\<close>
  | RecipientIsContract       \<comment> \<open>"StreamPay: recipient cannot be the contract"\<close>
  | RecipientIsSender         \<comment> \<open>"StreamPay: recipient cannot be the sender"\<close>
  | DepositIsZero             \<comment> \<open>"StreamPay: deposit is zero"\<close>
  | StartBeforeNow            \<comment> \<open>"StreamPay: start time before current time"\<close>
  | StopBeforeStart           \<comment> \<open>"StreamPay: stop time before start time"\<close>
  | DepositSmallerThanDuration \<comment> \<open>"StreamPay: deposit smaller than duration (min 1 token/sec)"\<close>
  | RecipientMismatch         \<comment> \<open>"StreamPay: recipient mismatch"\<close>
  | NotAuthorizedToWithdraw   \<comment> \<open>"StreamPay: not authorized to withdraw on behalf"\<close>
  | StreamNotActive           \<comment> \<open>"StreamPay: stream is not active"\<close>
  | CallerNotRecipient        \<comment> \<open>"StreamPay: caller is not the recipient"\<close>
  | NothingToWithdraw         \<comment> \<open>"StreamPay: no tokens available for withdrawal"\<close>
  | AmountExceedsWithdrawable \<comment> \<open>"StreamPay: amount exceeds withdrawable balance"\<close>
  | SenderMismatch            \<comment> \<open>"StreamPay: sender mismatch"\<close>
  | NotAuthorizedToCancel     \<comment> \<open>"StreamPay: not authorized to cancel on behalf"\<close>
  | CallerNotSenderOrRecipient \<comment> \<open>"StreamPay: caller is not the sender or recipient"\<close>
  | StreamAlreadyActive       \<comment> \<open>"StreamPay: stream is already active"\<close>
  | OnlySenderCanResume       \<comment> \<open>"StreamPay: only sender can resume the stream"\<close>
  | NoFundsLeft               \<comment> \<open>"StreamPay: no funds left in the stream"\<close>
  | Panic                     \<comment> \<open>checked arithmetic failed\<close>
  | TransferFailed            \<comment> \<open>\<^verbatim>\<open>safeTransfer\<close> or \<^verbatim>\<open>safeTransferFrom\<close> reverted\<close>

text \<open>Sequencing of fallible steps: the first error ends the call.\<close>

definition bindE :: "error + 'a \<Rightarrow> ('a \<Rightarrow> error + 'b) \<Rightarrow> error + 'b" where
  "bindE m f = (case m of Inl err \<Rightarrow> Inl err | Inr v \<Rightarrow> f v)"

subsection \<open>Checked arithmetic of Solidity 0.8\<close>

definition checked_add :: "uint256 \<Rightarrow> uint256 \<Rightarrow> error + uint256" where
  "checked_add a b = (if unat a + unat b < 2 ^ 256 then Inr (a + b) else Inl Panic)"

definition checked_sub :: "uint256 \<Rightarrow> uint256 \<Rightarrow> error + uint256" where
  "checked_sub a b = (if b \<le> a then Inr (a - b) else Inl Panic)"

definition checked_mul :: "uint256 \<Rightarrow> uint256 \<Rightarrow> error + uint256" where
  "checked_mul a b = (if unat a * unat b < 2 ^ 256 then Inr (a * b) else Inl Panic)"

definition checked_div :: "uint256 \<Rightarrow> uint256 \<Rightarrow> error + uint256" where
  "checked_div a b = (if b = 0 then Inl Panic else Inr (a div b))"

subsection \<open>Storage\<close>

record Stream =
  sender :: address
  recipient :: address
  tokenAddress :: address
  startTime :: uint256
  stopTime :: uint256
  deposit :: uint256
  ratePerSecond :: uint256
  remaining :: uint256
  isActive :: bool

text \<open>A Solidity mapping is total: a key never written reads as the all-zero value.\<close>

definition zero_Stream :: Stream where
  "zero_Stream = \<lparr> sender = 0, recipient = 0, tokenAddress = 0, startTime = 0,
     stopTime = 0, deposit = 0, ratePerSecond = 0, remaining = 0, isActive = False \<rparr>"

record state =
  streams :: "uint256 \<Rightarrow> Stream"
  delegateAuthorizations :: "address \<Rightarrow> address \<Rightarrow> bytes4 \<Rightarrow> bool"
  nextStreamId :: uint256

text \<open>The constructor sets the id counter to 1; all mappings are empty.\<close>

definition constructor :: state where
  "constructor = \<lparr> streams = (\<lambda>_. zero_Stream),
     delegateAuthorizations = (\<lambda>_ _ _. False), nextStreamId = 1 \<rparr>"

subsection \<open>The environment of a call and the token port\<close>

text \<open>
  A call sees \<^verbatim>\<open>msg.sender\<close>, \<^verbatim>\<open>block.timestamp\<close> and \<^verbatim>\<open>address(this)\<close>. The ERC-20
  token is an external contract: whether a \<^verbatim>\<open>safeTransferFrom\<close> (pull) or a
  \<^verbatim>\<open>safeTransfer\<close> (push) goes through is decided outside the ledger, so the
  environment carries that decision, as a function of the arguments of the transfer.
\<close>

record env =
  msg_sender :: address
  block_timestamp :: uint256
  this_address :: address
  pull_ok :: "address \<Rightarrow> address \<Rightarrow> address \<Rightarrow> uint256 \<Rightarrow> bool"
  push_ok :: "address \<Rightarrow> address \<Rightarrow> uint256 \<Rightarrow> bool"

text \<open>
  The transfers that a successful call has made. Each is labelled with the id of the
  stream whose operation made it: \<open>Pull id token from to amount\<close> and
  \<open>Push id token to amount\<close>.
\<close>

datatype transfer =
    Pull uint256 address address address uint256
  | Push uint256 address address uint256

type_synonym 'a result = "error + ('a \<times> state \<times> transfer list)"

subsection \<open>Authorization registry\<close>

text \<open>The selectors \<^verbatim>\<open>this.f.selector\<close>: the first four bytes of the Keccak-256 hash of
  the signature of \<open>f\<close>.\<close>

definition createStreamOnBehalf_selector :: bytes4 where
  "createStreamOnBehalf_selector = 0x395763b7"

definition withdrawFromStreamOnBehalf_selector :: bytes4 where
  "withdrawFromStreamOnBehalf_selector = 0xd172e54b"

definition cancelStreamOnBehalf_selector :: bytes4 where
  "cancelStreamOnBehalf_selector = 0x8d2d1861"

definition isAuthorizedDelegate :: "state \<Rightarrow> address \<Rightarrow> address \<Rightarrow> bytes4 \<Rightarrow> bool" where
  "isAuthorizedDelegate s delegator delegate functionSelector =
     delegateAuthorizations s delegator delegate functionSelector"

definition authorizeDelegate :: "env \<Rightarrow> state \<Rightarrow> address \<Rightarrow> bytes4 \<Rightarrow> unit result" where
  "authorizeDelegate e s delegate functionSelector =
     (if delegate = 0 then Inl DelegateIsZero
      else Inr ((), s\<lparr>delegateAuthorizations :=
        (\<lambda>a b c. if a = msg_sender e \<and> b = delegate \<and> c = functionSelector then True
                  else delegateAuthorizations s a b c)\<rparr>, []))"

definition revokeDelegate :: "env \<Rightarrow> state \<Rightarrow> address \<Rightarrow> bytes4 \<Rightarrow> unit result" where
  "revokeDelegate e s delegate functionSelector =
     Inr ((), s\<lparr>delegateAuthorizations :=
        (\<lambda>a b c. if a = msg_sender e \<and> b = delegate \<and> c = functionSelector then False
                  else delegateAuthorizations s a b c)\<rparr>, [])"

subsection \<open>Creation\<close>

text \<open>\<^verbatim>\<open>_createStream\<close>. The checks are in source order; the pull of the deposit comes
  before the id is taken and the record is stored.\<close>

definition internal_createStream ::
  "env \<Rightarrow> state \<Rightarrow> address \<Rightarrow> address \<Rightarrow> uint256 \<Rightarrow> address \<Rightarrow> uint256 \<Rightarrow> uint256
     \<Rightarrow> uint256 result" where
  "internal_createStream e s sndr rcpt dep tok start stop =
     (if rcpt = 0 then Inl RecipientIsZero
      else if rcpt = this_address e then Inl RecipientIsContract
      else if rcpt = sndr then Inl RecipientIsSender
      else if \<not> dep > 0 then Inl DepositIsZero
      else if \<not> start \<ge> block_timestamp e then Inl StartBeforeNow
      else if \<not> stop > start then Inl StopBeforeStart
      else bindE (checked_sub stop start) (\<lambda>duration.
        if \<not> dep \<ge> duration then Inl DepositSmallerThanDuration
        else bindE (checked_div dep duration) (\<lambda>rate.
          if \<not> pull_ok e tok sndr (this_address e) dep then Inl TransferFailed
          else
            let streamId = nextStreamId s in
            bindE (checked_add (nextStreamId s) 1) (\<lambda>next.
              Inr (streamId,
                   s\<lparr>nextStreamId := next,
                     streams := (streams s)(streamId :=
                       \<lparr> sender = sndr, recipient = rcpt, tokenAddress = tok,
                         startTime = start, stopTime = stop, deposit = dep,
                         ratePerSecond = rate, remaining = dep, isActive = True \<rparr>)\<rparr>,
                   [Pull streamId tok sndr (this_address e) dep])))))"

definition createStream ::
  "env \<Rightarrow> state \<Rightarrow> address \<Rightarrow> uint256 \<Rightarrow> address \<Rightarrow> uint256 \<Rightarrow> uint256 \<Rightarrow> uint256 result" where
  "createStream e s rcpt dep tok start stop =
     internal_createStream e s (msg_sender e) rcpt dep tok start stop"

definition createStreamOnBehalf ::
  "env \<Rightarrow> state \<Rightarrow> address \<Rightarrow> address \<Rightarrow> uint256 \<Rightarrow> address \<Rightarrow> uint256 \<Rightarrow> uint256
     \<Rightarrow> uint256 result" where
  "createStreamOnBehalf e s sndr rcpt dep tok start stop =
     (if \<not> isAuthorizedDelegate s sndr (msg_sender e) createStreamOnBehalf_selector
      then Inl NotAuthorizedToCreate
      else internal_createStream e s sndr rcpt dep tok start stop)"

subsection \<open>Accrual\<close>

text \<open>\<^verbatim>\<open>withdrawableAmount\<close>, a view: it reads the record as storage holds it at the
  moment of the call.\<close>

definition withdrawableAmount :: "env \<Rightarrow> state \<Rightarrow> uint256 \<Rightarrow> error + uint256" where
  "withdrawableAmount e s streamId =
     (let stream = streams s streamId in
      if \<not> isActive stream \<or> block_timestamp e < startTime stream then Inr 0
      else
        bindE (if block_timestamp e \<ge> stopTime stream
               then checked_sub (stopTime stream) (startTime stream)
               else checked_sub (block_timestamp e) (startTime stream)) (\<lambda>elapsedTime.
        bindE (checked_mul elapsedTime (ratePerSecond stream)) (\<lambda>earned.
          let withdrawable = (if earned > deposit stream then deposit stream else earned) in
          bindE (checked_sub (deposit stream) (remaining stream)) (\<lambda>disbursed.
            checked_sub withdrawable disbursed))))"

subsection \<open>Withdrawal\<close>

text \<open>\<^verbatim>\<open>_withdrawFromStream\<close>: the record is updated first, then the tokens are sent; a
  failed transfer reverts the update.\<close>

definition internal_withdrawFromStream ::
  "env \<Rightarrow> state \<Rightarrow> uint256 \<Rightarrow> address \<Rightarrow> uint256 \<Rightarrow> unit result" where
  "internal_withdrawFromStream e s streamId rcpt amount =
     (let stream = streams s streamId in
      if \<not> isActive stream then Inl StreamNotActive
      else if \<not> recipient stream = rcpt then Inl CallerNotRecipient
      else bindE (withdrawableAmount e s streamId) (\<lambda>withdrawable.
        if \<not> withdrawable > 0 then Inl NothingToWithdraw
        else
          let withdrawAmount = (if amount = 0 then withdrawable else amount) in
          if \<not> withdrawAmount \<le> withdrawable then Inl AmountExceedsWithdrawable
          else bindE (checked_sub (remaining stream) withdrawAmount) (\<lambda>rem.
            let stream1 = stream\<lparr>remaining := rem\<rparr>;
                stream2 = (if block_timestamp e \<ge> stopTime stream1 \<or> remaining stream1 = 0
                           then stream1\<lparr>isActive := False\<rparr> else stream1)
            in if \<not> push_ok e (tokenAddress stream2) rcpt withdrawAmount then Inl TransferFailed
               else Inr ((), s\<lparr>streams := (streams s)(streamId := stream2)\<rparr>,
                         [Push streamId (tokenAddress stream2) rcpt withdrawAmount]))))"

definition withdrawFromStream :: "env \<Rightarrow> state \<Rightarrow> uint256 \<Rightarrow> uint256 \<Rightarrow> unit result" where
  "withdrawFromStream e s streamId amount =
     internal_withdrawFromStream e s streamId (msg_sender e) amount"

definition withdrawFromStreamOnBehalf ::
  "env \<Rightarrow> state \<Rightarrow> uint256 \<Rightarrow> address \<Rightarrow> uint256 \<Rightarrow> unit result" where
  "withdrawFromStreamOnBehalf e s streamId rcpt amount =
     (if \<not> recipient (streams s streamId) = rcpt then Inl RecipientMismatch
      else if \<not> isAuthorizedDelegate s rcpt (msg_sender e) withdrawFromStreamOnBehalf_selector
      then Inl NotAuthorizedToWithdraw
      else internal_withdrawFromStream e s streamId rcpt amount)"

subsection \<open>Cancellation\<close>

text \<open>
  \<^verbatim>\<open>_cancelStream\<close>. The statements are kept in the order of the source: the record is
  marked inactive in storage, and only then \<^verbatim>\<open>withdrawableAmount(streamId)\<close> is
  called, which reads the record back from storage.
\<close>

definition internal_cancelStream :: "env \<Rightarrow> state \<Rightarrow> uint256 \<Rightarrow> address \<Rightarrow> unit result" where
  "internal_cancelStream e s streamId caller =
     (let stream = streams s streamId in
      if \<not> isActive stream then Inl StreamNotActive
      else if \<not> (sender stream = caller \<or> recipient stream = caller)
      then Inl CallerNotSenderOrRecipient
      else
        let s1 = s\<lparr>streams := (streams s)(streamId := stream\<lparr>isActive := False\<rparr>)\<rparr> in
        bindE (if block_timestamp e > startTime (streams s1 streamId)
               then withdrawableAmount e s1 streamId else Inr 0) (\<lambda>recipientAmount.
        bindE (checked_sub (remaining (streams s1 streamId)) recipientAmount) (\<lambda>senderRefund.
          let s2 = s1\<lparr>streams := (streams s1)(streamId := (streams s1 streamId)\<lparr>remaining := 0\<rparr>)\<rparr>;
              stream2 = streams s2 streamId
          in if recipientAmount > 0
                \<and> \<not> push_ok e (tokenAddress stream2) (recipient stream2) recipientAmount
             then Inl TransferFailed
             else if senderRefund > 0
                \<and> \<not> push_ok e (tokenAddress stream2) (sender stream2) senderRefund
             then Inl TransferFailed
             else Inr ((), s2,
               (if recipientAmount > 0
                then [Push streamId (tokenAddress stream2) (recipient stream2) recipientAmount]
                else []) @
               (if senderRefund > 0
                then [Push streamId (tokenAddress stream2) (sender stream2) senderRefund]
                else [])))))"

definition cancelStream :: "env \<Rightarrow> state \<Rightarrow> uint256 \<Rightarrow> unit result" where
  "cancelStream e s streamId = internal_cancelStream e s streamId (msg_sender e)"

definition cancelStreamOnBehalf :: "env \<Rightarrow> state \<Rightarrow> uint256 \<Rightarrow> address \<Rightarrow> unit result" where
  "cancelStreamOnBehalf e s streamId sndr =
     (if \<not> sender (streams s streamId) = sndr then Inl SenderMismatch
      else if \<not> isAuthorizedDelegate s sndr (msg_sender e) cancelStreamOnBehalf_selector
      then Inl NotAuthorizedToCancel
      else internal_cancelStream e s streamId sndr)"

subsection \<open>Pause and resume\<close>

definition pauseStream :: "env \<Rightarrow> state \<Rightarrow> uint256 \<Rightarrow> unit result" where
  "pauseStream e s streamId =
     (let stream = streams s streamId in
      if \<not> isActive stream then Inl StreamNotActive
      else if \<not> (sender stream = msg_sender e \<or> recipient stream = msg_sender e)
      then Inl CallerNotSenderOrRecipient
      else bindE (withdrawableAmount e s streamId) (\<lambda>withdrawable.
        bindE (checked_sub (remaining stream) withdrawable) (\<lambda>rem.
        bindE (if block_timestamp e < stopTime stream
               then checked_sub (stopTime stream) (block_timestamp e) else Inr 0) (\<lambda>timeRemaining.
          let stream1 = stream\<lparr>remaining := rem, stopTime := timeRemaining, isActive := False\<rparr>
          in if withdrawable > 0
                \<and> \<not> push_ok e (tokenAddress stream1) (recipient stream1) withdrawable
             then Inl TransferFailed
             else Inr ((), s\<lparr>streams := (streams s)(streamId := stream1)\<rparr>,
               (if withdrawable > 0
                then [Push streamId (tokenAddress stream1) (recipient stream1) withdrawable]
                else []))))))"

definition resumeStream :: "env \<Rightarrow> state \<Rightarrow> uint256 \<Rightarrow> unit result" where
  "resumeStream e s streamId =
     (let stream = streams s streamId in
      if \<not> \<not> isActive stream then Inl StreamAlreadyActive
      else if \<not> sender stream = msg_sender e then Inl OnlySenderCanResume
      else if \<not> remaining stream > 0 then Inl NoFundsLeft
      else
        let timeRemaining = stopTime stream in
        bindE (checked_add (block_timestamp e) timeRemaining) (\<lambda>stop.
          Inr ((), s\<lparr>streams := (streams s)(streamId :=
                 stream\<lparr>startTime := block_timestamp e, stopTime := stop, isActive := True\<rparr>)\<rparr>,
               [])))"

subsection \<open>Queries\<close>

definition getStreamBasicInfo ::
  "state \<Rightarrow> uint256 \<Rightarrow> address \<times> address \<times> address \<times> uint256 \<times> uint256 \<times> bool" where
  "getStreamBasicInfo s streamId =
     (let stream = streams s streamId in
      (sender stream, recipient stream, tokenAddress stream, deposit stream,
       remaining stream, isActive stream))"

definition getStreamTimeInfo ::
  "env \<Rightarrow> state \<Rightarrow> uint256 \<Rightarrow> error + (uint256 \<times> uint256 \<times> uint256 \<times> uint256)" where
  "getStreamTimeInfo e s streamId =
     (let stream = streams s streamId in
      bindE (withdrawableAmount e s streamId) (\<lambda>withdrawable.
        Inr (startTime stream, stopTime stream, ratePerSecond stream, withdrawable)))"

subsection \<open>Transactions and reachable ledgers\<close>

text \<open>The state-changing entry points of the contract.\<close>

datatype call =
    AuthorizeDelegate address bytes4
  | RevokeDelegate address bytes4
  | CreateStream address uint256 address uint256 uint256
  | CreateStreamOnBehalf address address uint256 address uint256 uint256
  | WithdrawFromStream uint256 uint256
  | WithdrawFromStreamOnBehalf uint256 address uint256
  | CancelStream uint256
  | CancelStreamOnBehalf uint256 address
  | PauseStream uint256
  | ResumeStream uint256

definition drop_value :: "'a result \<Rightarrow> error + (state \<times> transfer list)" where
  "drop_value r = (case r of Inl err \<Rightarrow> Inl err | Inr (v, s, ts) \<Rightarrow> Inr (s, ts))"

fun exec :: "env \<Rightarrow> call \<Rightarrow> state \<Rightarrow> error + (state \<times> transfer list)" where
  "exec e (AuthorizeDelegate d f) s = drop_value (authorizeDelegate e s d f)"
| "exec e (RevokeDelegate d f) s = drop_value (revokeDelegate e s d f)"
| "exec e (CreateStream r d t a b) s = drop_value (createStream e s r d t a b)"
| "exec e (CreateStreamOnBehalf x r d t a b) s = drop_value (createStreamOnBehalf e s x r d t a b)"
| "exec e (WithdrawFromStream i a) s = drop_value (withdrawFromStream e s i a)"
| "exec e (WithdrawFromStreamOnBehalf i r a) s = drop_value (withdrawFromStreamOnBehalf e s i r a)"
| "exec e (CancelStream i) s = drop_value (cancelStream e s i)"
| "exec e (CancelStreamOnBehalf i x) s = drop_value (cancelStreamOnBehalf e s i x)"
| "exec e (PauseStream i) s = drop_value (pauseStream e s i)"
| "exec e (ResumeStream i) s = drop_value (resumeStream e s i)"

text \<open>
  A ledger is the contract's storage together with the transfers made so far. A
  transaction that reverts changes neither. Every transaction comes with its own
  environment: any caller, any timestamp, any answer of the token.
\<close>

fun run :: "(env \<times> call) list \<Rightarrow> state \<times> transfer list \<Rightarrow> state \<times> transfer list" where
  "run [] w = w"
| "run ((e, c) # cs) (s, lg) =
     (case exec e c s of
        Inl err \<Rightarrow> run cs (s, lg)
      | Inr (s', ts) \<Rightarrow> run cs (s', lg @ ts))"

inductive reachable :: "state \<times> transfer list \<Rightarrow> bool" where
  reachable_init: "reachable (constructor, [])"
| reachable_step: "reachable (s, lg) \<Longrightarrow> exec e c s = Inr (s', ts) \<Longrightarrow> reachable (s', lg @ ts)"

text \<open>Block timestamps never decrease along a chain of transactions.\<close>

fun chronological :: "(env \<times> call) list \<Rightarrow> bool" where
  "chronological [] = True"
| "chronological [x] = True"
| "chronological (x # y # xs) =
     (block_timestamp (fst x) \<le> block_timestamp (fst y) \<and> chronological (y # xs))"

subsection \<open>Bookkeeping over the transfer log\<close>

fun push_amount :: "uint256 \<Rightarrow> transfer \<Rightarrow> nat" where
  "push_amount i (Push j tok to a) = (if j = i then unat a else 0)"
| "push_amount i (Pull j tok from to a) = 0"

fun push_amount_to :: "uint256 \<Rightarrow> address \<Rightarrow> transfer \<Rightarrow> nat" where
  "push_amount_to i x (Push j tok to a) = (if j = i \<and> to = x then unat a else 0)"
| "push_amount_to i x (Pull j tok from to a) = 0"

text \<open>Everything pushed out for stream \<open>i\<close>, and the part of it pushed to address \<open>x\<close>.\<close>

definition paid_out :: "transfer list \<Rightarrow> uint256 \<Rightarrow> nat" where
  "paid_out lg i = sum_list (map (push_amount i) lg)"

definition paid_to :: "transfer list \<Rightarrow> uint256 \<Rightarrow> address \<Rightarrow> nat" where
  "paid_to lg i x = sum_list (map (push_amount_to i x) lg)"

fun is_pull_of :: "uint256 \<Rightarrow> transfer \<Rightarrow> bool" where
  "is_pull_of i (Pull j tok from to a) = (j = i)"
| "is_pull_of i (Push j tok to a) = False"

text \<open>Stream \<open>i\<close> was assigned by a successful creation: its deposit was pulled.\<close>

definition created :: "transfer list \<Rightarrow> uint256 \<Rightarrow> bool" where
  "created lg i = list_ex (is_pull_of i) lg"

fun pull_amount :: "uint256 \<Rightarrow> transfer \<Rightarrow> nat" where
  "pull_amount i (Pull j tok from to a) = (if j = i then unat a else 0)"
| "pull_amount i (Push j tok to a) = 0"

text \<open>Everything pulled in for stream \<open>i\<close>.\<close>

definition pulled_in :: "transfer list \<Rightarrow> uint256 \<Rightarrow> nat" where
  "pulled_in lg i = sum_list (map (pull_amount i) lg)"

text \<open>The stream a transfer is labelled with.\<close>

definition transfer_id :: "transfer \<Rightarrow> uint256" where
  "transfer_id t = (case t of Pull j tok from to a \<Rightarrow> j | Push j tok to a \<Rightarrow> j)"

text \<open>A push labelled with stream \<open>i\<close> goes to the sender or to the recipient of the
  record \<open>st\<close>.\<close>

definition push_within :: "Stream \<Rightarrow> uint256 \<Rightarrow> transfer \<Rightarrow> bool" where
  "push_within st i t =
     (case t of Pull j tok from to a \<Rightarrow> True
      | Push j tok to a \<Rightarrow> j = i \<longrightarrow> to = sender st \<or> to = recipient st)"

text \<open>
  The common shape of a successful withdraw, pause, resume or cancel on stream \<open>i\<close>:
  only that record changes, it was live (active, or holding funds), its parties and
  deposit stay, and what leaves \<open>remaining\<close> is exactly what is pushed, to the sender
  or the recipient.
\<close>

definition settles :: "state \<Rightarrow> uint256 \<Rightarrow> state \<Rightarrow> transfer list \<Rightarrow> bool" where
  "settles s i s' ts =
     (s' = s\<lparr>streams := (streams s)(i := streams s' i)\<rparr>
      \<and> (isActive (streams s i) \<or> 0 < remaining (streams s i))
      \<and> sender (streams s' i) = sender (streams s i)
      \<and> recipient (streams s' i) = recipient (streams s i)
      \<and> deposit (streams s' i) = deposit (streams s i)
      \<and> unat (remaining (streams s' i)) + paid_out ts i = unat (remaining (streams s i))
      \<and> (\<forall>t \<in> set ts. transfer_id t = i \<and> push_within (streams s i) i t \<and> \<not> is_pull_of i t))"

subsection \<open>The ledger invariant\<close>

text \<open>
  Ids outside \<open>1 ..< nextStreamId\<close> hold the zero record and no transfer carries
  them. An id inside was created by one pull of its deposit, its parties differ, and
  what was pushed out for it plus what remains is the deposit.
\<close>

definition stream_ok :: "state \<Rightarrow> transfer list \<Rightarrow> uint256 \<Rightarrow> bool" where
  "stream_ok s lg i =
     (if i = 0 \<or> nextStreamId s \<le> i
      then streams s i = zero_Stream \<and> (\<forall>t \<in> set lg. transfer_id t \<noteq> i)
      else sender (streams s i) \<noteq> recipient (streams s i)
         \<and> created lg i
         \<and> pulled_in lg i = unat (deposit (streams s i))
         \<and> paid_out lg i + unat (remaining (streams s i)) = unat (deposit (streams s i))
         \<and> (\<forall>t \<in> set lg. push_within (streams s i) i t))"

definition ledger_inv :: "state \<Rightarrow> transfer list \<Rightarrow> bool" where
  "ledger_inv s lg = (nextStreamId s \<noteq> 0 \<and> (\<forall>i. stream_ok s lg i))"

subsection \<open>A worked history\<close>

text \<open>Alice streams to Bob through a token whose transfers all go through; Carol is a
  third party.\<close>

definition alice :: address where "alice = 0xA11CE"
definition bob :: address where "bob = 0xB0B"
definition carol :: address where "carol = 0xCA401"
definition token :: address where "token = 0x70CE"
definition ledger :: address where "ledger = 0x57EA"

definition env_at :: "address \<Rightarrow> uint256 \<Rightarrow> env" where
  "env_at who t = \<lparr> msg_sender = who, block_timestamp = t, this_address = ledger,
     pull_ok = (\<lambda>_ _ _ _. True), push_ok = (\<lambda>_ _ _. True) \<rparr>"

text \<open>The ledger right after deployment.\<close>

definition deployed :: "state \<times> transfer list" where
  "deployed = (constructor, [])"

text \<open>A stream of 1000 over the window 100 to 200 that is withdrawn from, paused,
  resumed and cancelled.\<close>

definition history_full :: "(env \<times> call) list" where
  "history_full =
     [(env_at alice 50, CreateStream bob 1000 token 100 200),
      (env_at bob 140, WithdrawFromStream 1 0),
      (env_at alice 160, PauseStream 1),
      (env_at alice 170, ResumeStream 1),
      (env_at alice 180, CancelStream 1)]"

text \<open>The ledger after Alice has created a stream of 1003 over the window 100 to 200.\<close>

definition created_1003 :: state where
  "created_1003 = constructor\<lparr>nextStreamId := 2,
     streams := (streams constructor)(1 :=
       \<lparr> sender = alice, recipient = bob, tokenAddress = token, startTime = 100,
         stopTime = 200, deposit = 1003, ratePerSecond = 10, remaining = 1003,
         isActive = True \<rparr>)\<rparr>"

text \<open>The ledger after Alice has created a stream of 1000 over the window 100 to 200.\<close>

definition created_1000 :: state where
  "created_1000 = constructor\<lparr>nextStreamId := 2,
     streams := (streams constructor)(1 :=
       \<lparr> sender = alice, recipient = bob, tokenAddress = token, startTime = 100,
         stopTime = 200, deposit = 1000, ratePerSecond = 10, remaining = 1000,
         isActive = True \<rparr>)\<rparr>"

text \<open>The same ledger after Bob has withdrawn 150 of it.\<close>

definition withdrawn_150 :: state where
  "withdrawn_150 = constructor\<lparr>nextStreamId := 2,
     streams := (streams constructor)(1 :=
       \<lparr> sender = alice, recipient = bob, tokenAddress = token, startTime = 100,
         stopTime = 200, deposit = 1000, ratePerSecond = 10, remaining = 850,
         isActive = True \<rparr>)\<rparr>"

text \<open>The freshly deployed ledger after Alice has granted Carol the right to create
  streams on her behalf.\<close>

definition granted :: state where
  "granted = constructor\<lparr>delegateAuthorizations :=
     (\<lambda>a b c. if a = alice \<and> b = carol \<and> c = createStreamOnBehalf_selector then True
               else delegateAuthorizations constructor a b c)\<rparr>"

text \<open>A stream of 1003 over the window 100 to 200 (rate 10, dust 3) that Bob drains at
  its stop time, and what Alice can do afterwards.\<close>

definition history_drained :: "(env \<times> call) list" where
  "history_drained =
     [(env_at alice 50, CreateStream bob 1003 token 100 200),
      (env_at bob 200, WithdrawFromStream 1 0)]"

definition history_revived :: "(env \<times> call) list" where
  "history_revived = history_drained @ [(env_at alice 200, ResumeStream 1)]"

definition history_revived_cancelled :: "(env \<times> call) list" where
  "history_revived_cancelled = history_revived @ [(env_at alice 200, CancelStream 1)]"

text \<open>A stream of 1000 over the window 100 to 200 from which Bob withdraws at 140, and
  which Alice then pauses and resumes within the same second.\<close>

definition history_withdrawn :: "(env \<times> call) list" where
  "history_withdrawn =
     [(env_at alice 50, CreateStream bob 1000 token 100 200),
      (env_at bob 140, WithdrawFromStream 1 0)]"

definition history_paused :: "(env \<times> call) list" where
  "history_paused = history_withdrawn @ [(env_at alice 140, PauseStream 1)]"

definition history_paused_resumed :: "(env \<times> call) list" where
  "history_paused_resumed = history_paused @ [(env_at alice 140, ResumeStream 1)]"

text \<open>The same stream, paused by Bob at 140 without a prior withdrawal and resumed by
  Alice at 150.\<close>

definition history_resumed_later :: "(env \<times> call) list" where
  "history_resumed_later =
     [(env_at alice 50, CreateStream bob 1000 token 100 200),
      (env_at bob 140, PauseStream 1),
      (env_at alice 150, ResumeStream 1)]"

text \<open>The ledger after the stream of 1000 has been cancelled.\<close>

definition cancelled_1000 :: state where
  "cancelled_1000 = constructor\<lparr>nextStreamId := 2,
     streams := (streams constructor)(1 :=
       \<lparr> sender = alice, recipient = bob, tokenAddress = token, startTime = 100,
         stopTime = 200, deposit = 1000, ratePerSecond = 10, remaining = 0,
         isActive = False \<rparr>)\<rparr>"

section \<open>Properties\<close>

subsection \<open>Checked arithmetic and sequencing\<close>

lemma bindE_Inr_iff: "bindE m f = Inr r \<longleftrightarrow> (\<exists>v. m = Inr v \<and> f v = Inr r)"
  by (cases m) (simp_all add: bindE_def)

lemma bindE_simps [simp]: "bindE (Inl err) f = Inl err" "bindE (Inr v) f = f v"
  by (simp_all add: bindE_def)

lemma checked_sub_Inr_iff: "checked_sub a b = Inr c \<longleftrightarrow> b \<le> a \<and> c = a - b"
  by (auto simp: checked_sub_def)

lemma checked_add_Inr_iff: "checked_add a b = Inr c \<longleftrightarrow> unat a + unat b < 2 ^ 256 \<and> c = a + b"
  by (auto simp: checked_add_def)

lemma checked_div_Inr_iff: "checked_div a b = Inr c \<longleftrightarrow> b \<noteq> 0 \<and> c = a div b"
  by (auto simp: checked_div_def)

lemma unat_sub_le: "(b::uint256) \<le> a \<Longrightarrow> unat (a - b) = unat a - unat b"
  by (simp add: unat_sub)

subsection \<open>The shape of successful operations\<close>

lemma withdrawable_le_remaining:
  assumes "withdrawableAmount e s i = Inr w"
  shows "w \<le> remaining (streams s i)"
proof (cases "\<not> isActive (streams s i) \<or> block_timestamp e < startTime (streams s i)")
  case True
  with assms have "w = 0" by (auto simp: withdrawableAmount_def Let_def)
  then show ?thesis by simp
next
  case False
  with assms obtain m where le: "remaining (streams s i) \<le> deposit (streams s i)"
    and m: "m \<le> deposit (streams s i)"
    and d: "deposit (streams s i) - remaining (streams s i) \<le> m"
    and w: "w = m - (deposit (streams s i) - remaining (streams s i))"
    by (auto simp: withdrawableAmount_def Let_def bindE_Inr_iff checked_sub_Inr_iff
        linorder_not_less split: if_splits)
  have "unat w = unat m - (unat (deposit (streams s i)) - unat (remaining (streams s i)))"
    using le d w by (simp add: unat_sub_le)
  moreover have "unat m \<le> unat (deposit (streams s i))"
    using m by (simp add: word_le_nat_alt)
  moreover have "unat (remaining (streams s i)) \<le> unat (deposit (streams s i))"
    using le by (simp add: word_le_nat_alt)
  ultimately have "unat w \<le> unat (remaining (streams s i))" by arith
  then show ?thesis by (simp add: word_le_nat_alt)
qed

lemma withdraw_settles:
  assumes "internal_withdrawFromStream e s i r a = Inr (u, s', ts)"
  shows "settles s i s' ts"
  using assms
  by (auto simp: internal_withdrawFromStream_def Let_def bindE_Inr_iff checked_sub_Inr_iff
      settles_def paid_out_def transfer_id_def push_within_def unat_sub_le word_le_nat_alt
      word_gt_0 split: if_splits)

lemma pause_settles:
  assumes "pauseStream e s i = Inr (u, s', ts)"
  shows "settles s i s' ts"
  using assms
  by (auto simp: pauseStream_def Let_def bindE_Inr_iff checked_sub_Inr_iff
      settles_def paid_out_def transfer_id_def push_within_def unat_sub_le word_le_nat_alt
      word_gt_0 split: if_splits)

lemma resume_settles:
  assumes "resumeStream e s i = Inr (u, s', ts)"
  shows "settles s i s' ts"
  using assms
  by (auto simp: resumeStream_def Let_def bindE_Inr_iff checked_add_Inr_iff
      settles_def paid_out_def 
      split: if_splits)

lemma withdrawable_inactive:
  "\<not> isActive (streams s i) \<Longrightarrow> withdrawableAmount e s i = Inr 0"
  by (simp add: withdrawableAmount_def)

lemma cancel_shape:
  assumes "internal_cancelStream e s i c = Inr (u, s', ts)"
  shows "isActive (streams s i) \<and> (sender (streams s i) = c \<or> recipient (streams s i) = c)
    \<and> s' = s\<lparr>streams := (streams s)(i := (streams s i)\<lparr>isActive := False, remaining := 0\<rparr>)\<rparr>
    \<and> ts = (if 0 < remaining (streams s i)
             then [Push i (tokenAddress (streams s i)) (sender (streams s i)) (remaining (streams s i))]
             else [])"
proof -
  let ?s1 = "s\<lparr>streams := (streams s)(i := (streams s i)\<lparr>isActive := False\<rparr>)\<rparr>"
  have w: "withdrawableAmount e ?s1 i = Inr 0"
    by (rule withdrawable_inactive) simp
  show ?thesis
    using assms
    by (auto simp: internal_cancelStream_def Let_def w checked_sub_def split: if_splits)
qed

lemma cancel_settles:
  assumes "internal_cancelStream e s i c = Inr (u, s', ts)"
  shows "settles s i s' ts"
  using cancel_shape [OF assms]
  by (auto simp: settles_def paid_out_def transfer_id_def push_within_def word_gt_0)

lemma create_shape:
  assumes "internal_createStream e s a r d t b c = Inr (i, s', ts)"
  shows "i = nextStreamId s \<and> unat (i + 1) = Suc (unat i) \<and> r \<noteq> a
    \<and> s' = s\<lparr>nextStreamId := i + 1,
             streams := (streams s)(i :=
               \<lparr> sender = a, recipient = r, tokenAddress = t, startTime = b, stopTime = c,
                 deposit = d, ratePerSecond = d div (c - b), remaining = d, isActive = True \<rparr>)\<rparr>
    \<and> ts = [Pull i t a (this_address e) d]"
proof -
  have "unat (x + 1) = Suc (unat x)" if "checked_add x 1 = Inr y" for x y :: uint256
  proof -
    from that have "unat x + unat (1 :: uint256) < 2 ^ LENGTH(256)"
      by (simp add: checked_add_def split: if_splits)
    then have "unat (x + 1) = unat x + unat (1 :: uint256)"
      by (rule unat_add_lem [THEN iffD1])
    then show ?thesis by simp
  qed
  with assms show ?thesis
    by (auto simp: internal_createStream_def Let_def bindE_Inr_iff checked_sub_Inr_iff
        checked_div_Inr_iff checked_add_Inr_iff split: if_splits)
qed

subsection \<open>The transfer log\<close>

lemma paid_out_append [simp]: "paid_out (lg @ ts) i = paid_out lg i + paid_out ts i"
  by (simp add: paid_out_def)

lemma created_append [simp]: "created (lg @ ts) i \<longleftrightarrow> created lg i \<or> created ts i"
  by (simp add: created_def)

lemma paid_out_other:
  "\<forall>t \<in> set ts. transfer_id t \<noteq> j \<Longrightarrow> paid_out ts j = 0"
proof (induction ts)
  case Nil
  then show ?case by (simp add: paid_out_def)
next
  case (Cons t ts)
  then show ?case by (cases t) (auto simp: paid_out_def transfer_id_def)
qed

lemma pulled_in_append [simp]: "pulled_in (lg @ ts) i = pulled_in lg i + pulled_in ts i"
  by (simp add: pulled_in_def)

lemma pulled_in_other:
  "\<forall>t \<in> set ts. \<not> is_pull_of j t \<Longrightarrow> pulled_in ts j = 0"
proof (induction ts)
  case Nil
  then show ?case by (simp add: pulled_in_def)
next
  case (Cons t ts)
  then show ?case by (cases t) (auto simp: pulled_in_def)
qed

lemma is_pull_of_id: "is_pull_of j t \<Longrightarrow> transfer_id t = j"
  by (cases t) (simp_all add: transfer_id_def)

lemma push_within_other: "transfer_id t \<noteq> j \<Longrightarrow> push_within st j t"
  by (cases t) (simp_all add: transfer_id_def push_within_def)

lemma push_within_cong:
  "sender st' = sender st \<Longrightarrow> recipient st' = recipient st
     \<Longrightarrow> push_within st' i t = push_within st i t"
  by (cases t) (simp_all add: push_within_def)

subsection \<open>Every transaction preserves the ledger invariant\<close>

lemma inv_settles:
  assumes inv: "ledger_inv s lg" and st: "settles s i s' ts"
  shows "ledger_inv s' (lg @ ts)"
proof -
  from st have s': "s' = s\<lparr>streams := (streams s)(i := streams s' i)\<rparr>"
    and live: "isActive (streams s i) \<or> 0 < remaining (streams s i)"
    and snd: "sender (streams s' i) = sender (streams s i)"
    and rcp: "recipient (streams s' i) = recipient (streams s i)"
    and dep: "deposit (streams s' i) = deposit (streams s i)"
    and bal: "unat (remaining (streams s' i)) + paid_out ts i = unat (remaining (streams s i))"
    and ts: "\<forall>t \<in> set ts. transfer_id t = i \<and> push_within (streams s i) i t \<and> \<not> is_pull_of i t"
    by (auto simp: settles_def)
  from s' have nxt: "nextStreamId s' = nextStreamId s"
    by (metis state.select_convs(3) state.surjective state.update_convs(1))
  from s' have oth: "\<And>j. j \<noteq> i \<Longrightarrow> streams s' j = streams s j"
    by (metis fun_upd_other state.select_convs(1) state.surjective state.update_convs(1))
  have "stream_ok s' (lg @ ts) j" for j
  proof (cases "j = i")
    case True
    from live have nz: "streams s i \<noteq> zero_Stream" by (auto simp: zero_Stream_def)
    from inv have ok: "stream_ok s lg i" by (simp add: ledger_inv_def)
    with nz have rng: "\<not> (i = 0 \<or> nextStreamId s \<le> i)"
      by (auto simp: stream_ok_def split: if_splits)
    with ok have a: "sender (streams s i) \<noteq> recipient (streams s i)"
      and b: "created lg i"
      and c: "paid_out lg i + unat (remaining (streams s i)) = unat (deposit (streams s i))"
      and d: "\<forall>t \<in> set lg. push_within (streams s i) i t"
      and p: "pulled_in lg i = unat (deposit (streams s i))"
      by (simp_all add: stream_ok_def)
    have "pulled_in ts i = 0" using ts by (simp add: pulled_in_other)
    with p dep have p': "pulled_in (lg @ ts) i = unat (deposit (streams s' i))" by simp
    have "\<forall>t \<in> set (lg @ ts). push_within (streams s' i) i t"
      using d ts by (auto simp: push_within_cong [OF snd rcp])
    moreover have "paid_out (lg @ ts) i + unat (remaining (streams s' i)) = unat (deposit (streams s' i))"
      using c bal dep by simp
    ultimately show ?thesis
      using True rng a b snd rcp nxt p' by (simp add: stream_ok_def)
  next
    case False
    from ts False have t1: "\<forall>t \<in> set ts. transfer_id t \<noteq> j" by auto
    from inv have ok: "stream_ok s lg j" by (simp add: ledger_inv_def)
    have p: "paid_out ts j = 0" using t1 by (rule paid_out_other)
    have q: "\<forall>t \<in> set ts. push_within (streams s j) j t"
      using t1 by (simp add: push_within_other)
    have r: "pulled_in ts j = 0"
      using t1 is_pull_of_id by (intro pulled_in_other) blast
    show ?thesis
      using ok t1 p q r by (auto simp: stream_ok_def oth [OF False] nxt)
  qed
  moreover from inv have "nextStreamId s' \<noteq> 0" by (simp add: ledger_inv_def nxt)
  ultimately show ?thesis by (simp add: ledger_inv_def)
qed

lemma inv_create:
  assumes inv: "ledger_inv s lg"
    and cr: "internal_createStream e s a r d t b c = Inr (i, s', ts)"
  shows "ledger_inv s' (lg @ ts)"
proof -
  let ?new = "\<lparr> sender = a, recipient = r, tokenAddress = t, startTime = b, stopTime = c,
                 deposit = d, ratePerSecond = d div (c - b), remaining = d, isActive = True \<rparr>"
  from create_shape [OF cr] have i: "i = nextStreamId s" and u: "unat (i + 1) = Suc (unat i)"
    and ne: "r \<noteq> a"
    and s': "s' = s\<lparr>nextStreamId := i + 1, streams := (streams s)(i := ?new)\<rparr>"
    and ts: "ts = [Pull i t a (this_address e) d]"
    by blast+
  from inv i have i0: "i \<noteq> 0" by (simp add: ledger_inv_def)
  have nxt: "nextStreamId s' = i + 1" by (simp add: s')
  have lt: "i < i + 1" using u by (simp add: word_less_nat_alt)
  have "stream_ok s' (lg @ ts) j" for j
  proof (cases "j = i")
    case True
    from inv have "stream_ok s lg i" by (simp add: ledger_inv_def)
    with i have fresh: "\<forall>t \<in> set lg. transfer_id t \<noteq> i"
      by (simp add: stream_ok_def)
    have "paid_out lg i = 0" using fresh by (rule paid_out_other)
    moreover have "pulled_in lg i = 0"
      using fresh is_pull_of_id by (intro pulled_in_other) blast
    moreover have "\<forall>t \<in> set lg. push_within ?new i t"
      using fresh by (simp add: push_within_other)
    moreover have "\<not> i + 1 \<le> i" using lt by simp
    ultimately show ?thesis
      using True i0 ne
      by (simp add: stream_ok_def s' ts created_def paid_out_def pulled_in_def push_within_def)
  next
    case False
    from inv have ok: "stream_ok s lg j" by (simp add: ledger_inv_def)
    have st: "streams s' j = streams s j" using False by (simp add: s')
    have tid: "transfer_id (Pull i t a (this_address e) d) \<noteq> j"
      using False by (simp add: transfer_id_def)
    show ?thesis
    proof (cases "j = 0 \<or> i + 1 \<le> j")
      case True
      then have "j = 0 \<or> nextStreamId s \<le> j" using lt i by auto
      with ok True tid show ?thesis
        by (simp add: stream_ok_def st nxt ts)
    next
      case F2: False
      then have "unat j < Suc (unat i)" using u by (simp add: word_le_nat_alt)
      moreover have "unat j \<noteq> unat i" using False by (simp add: word_unat_eq_iff)
      ultimately have "unat j < unat i" by arith
      then have "\<not> (j = 0 \<or> nextStreamId s \<le> j)"
        using F2 i by (simp add: word_le_nat_alt)
      with ok F2 False show ?thesis
        by (simp add: stream_ok_def st nxt ts created_def paid_out_def pulled_in_def
            push_within_def)
    qed
  qed
  moreover have "nextStreamId s' \<noteq> 0"
    using lt nxt by (metis word_not_simps(1))
  ultimately show ?thesis by (simp add: ledger_inv_def)
qed

lemma inv_auth:
  assumes "ledger_inv s lg" and "streams s' = streams s" and "nextStreamId s' = nextStreamId s"
  shows "ledger_inv s' lg"
  using assms by (simp add: ledger_inv_def stream_ok_def)

lemma inv_exec:
  assumes inv: "ledger_inv s lg" and ex: "exec e c s = Inr (s', ts)"
  shows "ledger_inv s' (lg @ ts)"
proof (cases c)
  case (AuthorizeDelegate d f)
  with ex have "streams s' = streams s \<and> nextStreamId s' = nextStreamId s \<and> ts = []"
    by (auto simp: drop_value_def authorizeDelegate_def split: if_splits)
  with inv show ?thesis by (simp add: inv_auth)
next
  case (RevokeDelegate d f)
  with ex have "streams s' = streams s \<and> nextStreamId s' = nextStreamId s \<and> ts = []"
    by (auto simp: drop_value_def revokeDelegate_def)
  with inv show ?thesis by (simp add: inv_auth)
next
  case (CreateStream r d t a b)
  with ex obtain i where "internal_createStream e s (msg_sender e) r d t a b = Inr (i, s', ts)"
    by (auto simp: drop_value_def createStream_def split: sum.splits)
  with inv show ?thesis by (rule inv_create)
next
  case (CreateStreamOnBehalf x r d t a b)
  with ex obtain i where "internal_createStream e s x r d t a b = Inr (i, s', ts)"
    by (auto simp: drop_value_def createStreamOnBehalf_def split: sum.splits if_splits)
  with inv show ?thesis by (rule inv_create)
next
  case (WithdrawFromStream i a)
  with ex have "internal_withdrawFromStream e s i (msg_sender e) a = Inr ((), s', ts)"
    by (auto simp: drop_value_def withdrawFromStream_def split: sum.splits)
  then have "settles s i s' ts" by (rule withdraw_settles)
  with inv show ?thesis by (rule inv_settles)
next
  case (WithdrawFromStreamOnBehalf i r a)
  with ex have "internal_withdrawFromStream e s i r a = Inr ((), s', ts)"
    by (auto simp: drop_value_def withdrawFromStreamOnBehalf_def split: sum.splits if_splits)
  then have "settles s i s' ts" by (rule withdraw_settles)
  with inv show ?thesis by (rule inv_settles)
next
  case (CancelStream i)
  with ex have "internal_cancelStream e s i (msg_sender e) = Inr ((), s', ts)"
    by (auto simp: drop_value_def cancelStream_def split: sum.splits)
  then have "settles s i s' ts" by (rule cancel_settles)
  with inv show ?thesis by (rule inv_settles)
next
  case (CancelStreamOnBehalf i x)
  with ex have "internal_cancelStream e s i x = Inr ((), s', ts)"
    by (auto simp: drop_value_def cancelStreamOnBehalf_def split: sum.splits if_splits)
  then have "settles s i s' ts" by (rule cancel_settles)
  with inv show ?thesis by (rule inv_settles)
next
  case (PauseStream i)
  with ex have "pauseStream e s i = Inr ((), s', ts)"
    by (auto simp: drop_value_def split: sum.splits)
  then have "settles s i s' ts" by (rule pause_settles)
  with inv show ?thesis by (rule inv_settles)
next
  case (ResumeStream i)
  with ex have "resumeStream e s i = Inr ((), s', ts)"
    by (auto simp: drop_value_def split: sum.splits)
  then have "settles s i s' ts" by (rule resume_settles)
  with inv show ?thesis by (rule inv_settles)
qed

lemma inv_init: "ledger_inv constructor []"
  by (simp add: ledger_inv_def stream_ok_def constructor_def linorder_not_le word_less_1)

lemma reachable_inv: "reachable w \<Longrightarrow> ledger_inv (fst w) (snd w)"
proof (induction rule: reachable.induct)
  case reachable_init
  show ?case by (simp add: inv_init)
next
  case (reachable_step s lg e c s' ts)
  then show ?case by (simp add: inv_exec)
qed

subsection \<open>Evaluation of concrete histories\<close>

lemmas actor_defs = alice_def bob_def carol_def token_def ledger_def env_at_def deployed_def

lemmas op_defs = constructor_def zero_Stream_def drop_value_def bindE_def
  checked_add_def checked_sub_def checked_mul_def checked_div_def
  isAuthorizedDelegate_def authorizeDelegate_def revokeDelegate_def
  createStreamOnBehalf_selector_def withdrawFromStreamOnBehalf_selector_def
  cancelStreamOnBehalf_selector_def
  internal_createStream_def createStream_def createStreamOnBehalf_def
  withdrawableAmount_def internal_withdrawFromStream_def withdrawFromStream_def
  withdrawFromStreamOnBehalf_def internal_cancelStream_def cancelStream_def
  cancelStreamOnBehalf_def pauseStream_def resumeStream_def
  getStreamBasicInfo_def getStreamTimeInfo_def

subsection \<open>Running histories\<close>

lemma reachable_run: "reachable w \<Longrightarrow> reachable (run cs w)"
proof (induction cs arbitrary: w)
  case Nil
  then show ?case by simp
next
  case (Cons x cs)
  obtain e c where x: "x = (e, c)" by (cases x)
  obtain s lg where w: "w = (s, lg)" by (cases w)
  show ?case
  proof (cases "exec e c s")
    case (Inl err)
    with Cons x w show ?thesis by simp
  next
    case (Inr r)
    obtain s' ts where r: "r = (s', ts)" by (cases r)
    from Cons.prems w Inr r have "reachable (s', lg @ ts)"
      by (auto intro: reachable_step)
    then have "reachable (run cs (s', lg @ ts))" by (rule Cons.IH)
    with x w Inr r show ?thesis by simp
  qed
qed

lemma reachable_deployed: "reachable deployed"
  by (simp add: deployed_def reachable_init)

subsection \<open>Conservation of the deposit\<close>

lemma paid_to_other:
  "\<forall>t \<in> set lg. transfer_id t \<noteq> i \<Longrightarrow> paid_to lg i x = 0"
proof (induction lg)
  case Nil
  then show ?case by (simp add: paid_to_def)
next
  case (Cons t lg)
  then show ?case by (cases t) (auto simp: paid_to_def transfer_id_def)
qed

lemma paid_out_split:
  assumes "sender st \<noteq> recipient st" and "\<forall>t \<in> set lg. push_within st i t"
  shows "paid_out lg i = paid_to lg i (sender st) + paid_to lg i (recipient st)"
  using assms(2)
proof (induction lg)
  case Nil
  then show ?case by (simp add: paid_out_def paid_to_def)
next
  case (Cons t lg)
  then have "paid_out lg i = paid_to lg i (sender st) + paid_to lg i (recipient st)" by simp
  moreover have "push_amount i t = push_amount_to i (sender st) t + push_amount_to i (recipient st) t"
    using Cons.prems assms(1) by (cases t) (auto simp: push_within_def)
  ultimately show ?case by (simp add: paid_out_def paid_to_def)
qed

text \<open>
  C2: in every ledger reachable through the entry points, for every stream id, the
  amounts pushed out to the sender and to the recipient for that stream, plus the
  \<open>remaining\<close> field, equal the \<open>deposit\<close> field; and that field is what was pulled in
  at creation.
\<close>

theorem deposit_is_conserved:
  assumes "reachable (s, lg)"
  shows "paid_to lg i (sender (streams s i)) + paid_to lg i (recipient (streams s i))
           + unat (remaining (streams s i)) = unat (deposit (streams s i))
         \<and> pulled_in lg i = unat (deposit (streams s i))"
proof -
  from assms have "ledger_inv s lg" by (auto dest: reachable_inv)
  then have ok: "stream_ok s lg i" by (simp add: ledger_inv_def)
  show ?thesis
  proof (cases "i = 0 \<or> nextStreamId s \<le> i")
    case True
    with ok have z: "streams s i = zero_Stream" and fresh: "\<forall>t \<in> set lg. transfer_id t \<noteq> i"
      by (simp_all add: stream_ok_def)
    have "pulled_in lg i = 0"
      using fresh is_pull_of_id by (intro pulled_in_other) blast
    with z fresh show ?thesis by (simp add: paid_to_other zero_Stream_def)
  next
    case False
    with ok have ne: "sender (streams s i) \<noteq> recipient (streams s i)"
      and bal: "paid_out lg i + unat (remaining (streams s i)) = unat (deposit (streams s i))"
      and pw: "\<forall>t \<in> set lg. push_within (streams s i) i t"
      and pl: "pulled_in lg i = unat (deposit (streams s i))"
      by (simp_all add: stream_ok_def)
    from paid_out_split [OF ne pw] bal pl show ?thesis by simp
  qed
qed

lemma history_full_result:
  "snd (run history_full deployed) =
     [Pull 1 token alice ledger 1000, Push 1 token bob 400, Push 1 token bob 200,
      Push 1 token alice 400]"
  by (simp add: history_full_def actor_defs op_defs)

theorem deposit_is_conserved_witness:
  "reachable (run history_full deployed)
   \<and> paid_to (snd (run history_full deployed)) 1 alice = 400
   \<and> paid_to (snd (run history_full deployed)) 1 bob = 600
   \<and> remaining (streams (fst (run history_full deployed)) 1) = 0
   \<and> pulled_in (snd (run history_full deployed)) 1 = 1000"
proof -
  have r: "reachable (fst (run history_full deployed), snd (run history_full deployed))"
    using reachable_run [OF reachable_deployed] by simp
  have a: "sender (streams (fst (run history_full deployed)) 1) = alice"
    and b: "recipient (streams (fst (run history_full deployed)) 1) = bob"
    and d: "deposit (streams (fst (run history_full deployed)) 1) = 1000"
    and m: "remaining (streams (fst (run history_full deployed)) 1) = 0"
    by (simp_all add: history_full_def actor_defs op_defs)
  have pa: "paid_to (snd (run history_full deployed)) 1 alice = 400"
    unfolding history_full_result by (simp add: paid_to_def actor_defs)
  from deposit_is_conserved [OF r, of 1] r pa show ?thesis
    by (simp add: a b d m)
qed

subsection \<open>Ids that were never assigned\<close>

text \<open>
  C10: for a stream id that no successful creation has assigned, the read-only queries
  return without failing and give the zero record: \<open>withdrawableAmount\<close> is 0 and
  \<open>getStreamBasicInfo\<close> is all zero identifiers, zero deposit, zero remaining and
  inactive.
\<close>

theorem unassigned_id_reads_zero:
  assumes "reachable (s, lg)" and "\<not> created lg i"
  shows "withdrawableAmount e s i = Inr 0
         \<and> getStreamBasicInfo s i = (0, 0, 0, 0, 0, False)"
proof -
  from assms(1) have "ledger_inv s lg" by (auto dest: reachable_inv)
  then have "stream_ok s lg i" by (simp add: ledger_inv_def)
  with assms(2) have z: "streams s i = zero_Stream"
    by (auto simp: stream_ok_def split: if_splits)
  then have "\<not> isActive (streams s i)" by (simp add: zero_Stream_def)
  then have "withdrawableAmount e s i = Inr 0" by (rule withdrawable_inactive)
  moreover have "getStreamBasicInfo s i = (0, 0, 0, 0, 0, False)"
    by (simp add: getStreamBasicInfo_def z zero_Stream_def)
  ultimately show ?thesis by simp
qed

theorem unassigned_id_reads_zero_witness:
  "reachable (run history_full deployed)
   \<and> \<not> created (snd (run history_full deployed)) 2
   \<and> withdrawableAmount (env_at carol 300) (fst (run history_full deployed)) 2 = Inr 0
   \<and> getStreamBasicInfo (fst (run history_full deployed)) 2 = (0, 0, 0, 0, 0, False)"
proof -
  have r: "reachable (fst (run history_full deployed), snd (run history_full deployed))"
    using reachable_run [OF reachable_deployed] by simp
  have c: "\<not> created (snd (run history_full deployed)) 2"
    unfolding history_full_result by (simp add: created_def)
  from unassigned_id_reads_zero [OF r c] r c show ?thesis by simp
qed

subsection \<open>Creation\<close>

lemma create_ok_iff:
  "(\<exists>res. internal_createStream e s a r d t b c = Inr res) \<longleftrightarrow>
     r \<noteq> 0 \<and> r \<noteq> this_address e \<and> r \<noteq> a \<and> 0 < d \<and> block_timestamp e \<le> b \<and> b < c
     \<and> c - b \<le> d \<and> pull_ok e t a (this_address e) d
     \<and> unat (nextStreamId s) + unat (1 :: uint256) < 2 ^ 256"
proof -
  have "b < c \<Longrightarrow> b \<le> c \<and> c - b \<noteq> 0" by (auto simp: word_less_nat_alt word_le_nat_alt)
  then show ?thesis
    by (auto simp: internal_createStream_def Let_def checked_sub_def checked_div_def
      checked_add_def)
qed

lemma rate_floor:
  assumes "b < c" and "c - b \<le> (d :: uint256)"
  shows "unat (d div (c - b)) = unat d div (unat c - unat b)" and "1 \<le> d div (c - b)"
proof -
  from assms(1) have le: "b \<le> c" by simp
  then have u: "unat (c - b) = unat c - unat b" by (rule unat_sub_le)
  show f: "unat (d div (c - b)) = unat d div (unat c - unat b)"
    by (simp add: unat_div u)
  from assms(1) have "0 < unat c - unat b" by (simp add: word_less_nat_alt)
  moreover from assms(2) have "unat c - unat b \<le> unat d" by (simp add: word_le_nat_alt u)
  ultimately have "0 < unat d div (unat c - unat b)" by (simp add: div_greater_zero_iff)
  with f have "unat (1 :: uint256) \<le> unat (d div (c - b))" by simp
  then show "1 \<le> d div (c - b)" by (simp only: word_le_nat_alt)
qed

text \<open>
  C6: while the id counter is below the largest \<^verbatim>\<open>uint256\<close>, creation succeeds exactly
  when the recipient is not zero, not the ledger and not the sender, the deposit is
  positive, the start is not before now, the stop is after the start, the deposit is at
  least the duration, and the pull of the deposit goes through. The stored record then
  has rate \<open>floor (deposit / (stop - start))\<close>, which is at least 1, remaining equal to
  the deposit, and is active.
\<close>

theorem createStream_succeeds_exactly_when:
  assumes "unat (nextStreamId s) < 2 ^ 256 - 1"
  shows "((\<exists>res. internal_createStream e s sndr rcpt dep tok start stop = Inr res) \<longleftrightarrow>
            rcpt \<noteq> 0 \<and> rcpt \<noteq> this_address e \<and> rcpt \<noteq> sndr \<and> 0 < dep
            \<and> block_timestamp e \<le> start \<and> start < stop
            \<and> unat stop - unat start \<le> unat dep
            \<and> pull_ok e tok sndr (this_address e) dep)
         \<and> (\<forall>i s' ts. internal_createStream e s sndr rcpt dep tok start stop = Inr (i, s', ts) \<longrightarrow>
               i = nextStreamId s
               \<and> unat (ratePerSecond (streams s' i)) = unat dep div (unat stop - unat start)
               \<and> 1 \<le> ratePerSecond (streams s' i)
               \<and> remaining (streams s' i) = dep
               \<and> isActive (streams s' i)
               \<and> sender (streams s' i) = sndr \<and> recipient (streams s' i) = rcpt
               \<and> tokenAddress (streams s' i) = tok \<and> deposit (streams s' i) = dep
               \<and> startTime (streams s' i) = start \<and> stopTime (streams s' i) = stop)"
proof -
  from assms have nov: "unat (nextStreamId s) + unat (1 :: uint256) < 2 ^ 256" by simp
  have dur: "c - b \<le> d \<longleftrightarrow> unat c - unat b \<le> unat d" if "b < c" for b c d :: uint256
  proof -
    from that have "b \<le> c" by simp
    then have "unat (c - b) = unat c - unat b" by (rule unat_sub_le)
    then show ?thesis by (simp add: word_le_nat_alt)
  qed
  have first: "(\<exists>res. internal_createStream e s sndr rcpt dep tok start stop = Inr res) \<longleftrightarrow>
            rcpt \<noteq> 0 \<and> rcpt \<noteq> this_address e \<and> rcpt \<noteq> sndr \<and> 0 < dep
            \<and> block_timestamp e \<le> start \<and> start < stop
            \<and> unat stop - unat start \<le> unat dep
            \<and> pull_ok e tok sndr (this_address e) dep"
    unfolding create_ok_iff using nov dur by blast
  have second: "i = nextStreamId s
               \<and> unat (ratePerSecond (streams s' i)) = unat dep div (unat stop - unat start)
               \<and> 1 \<le> ratePerSecond (streams s' i)
               \<and> remaining (streams s' i) = dep
               \<and> isActive (streams s' i)
               \<and> sender (streams s' i) = sndr \<and> recipient (streams s' i) = rcpt
               \<and> tokenAddress (streams s' i) = tok \<and> deposit (streams s' i) = dep
               \<and> startTime (streams s' i) = start \<and> stopTime (streams s' i) = stop"
    if ok: "internal_createStream e s sndr rcpt dep tok start stop = Inr (i, s', ts)" for i s' ts
  proof -
    from ok have "\<exists>res. internal_createStream e s sndr rcpt dep tok start stop = Inr res" by blast
    then have lt: "start < stop" and ge: "stop - start \<le> dep"
      unfolding create_ok_iff by blast+
    from create_shape [OF ok] have i: "i = nextStreamId s"
      and s': "s' = s\<lparr>nextStreamId := i + 1,
             streams := (streams s)(i :=
               \<lparr> sender = sndr, recipient = rcpt, tokenAddress = tok, startTime = start,
                 stopTime = stop, deposit = dep, ratePerSecond = dep div (stop - start),
                 remaining = dep, isActive = True \<rparr>)\<rparr>"
      by blast+
    from s' have st: "streams s' i = \<lparr> sender = sndr, recipient = rcpt, tokenAddress = tok,
        startTime = start, stopTime = stop, deposit = dep,
        ratePerSecond = dep div (stop - start), remaining = dep, isActive = True \<rparr>"
      by simp
    show ?thesis
      unfolding st using i rate_floor [OF lt ge] by simp
  qed
  from first second show ?thesis by blast
qed

theorem createStream_succeeds_exactly_when_witness:
  "unat (nextStreamId constructor) < 2 ^ 256 - 1
   \<and> internal_createStream (env_at alice 50) constructor alice bob 1003 token 100 200
       = Inr (1, created_1003, [Pull 1 token alice ledger 1003])
   \<and> unat (ratePerSecond (streams created_1003 1)) = 1003 div (200 - 100)
   \<and> 1 \<le> ratePerSecond (streams created_1003 1)
   \<and> remaining (streams created_1003 1) = 1003
   \<and> isActive (streams created_1003 1)
   \<and> (\<forall>res. internal_createStream (env_at alice 50) constructor alice bob 99 token 100 200
              \<noteq> Inr res)"
proof -
  have h: "unat (nextStreamId constructor) < 2 ^ 256 - 1"
    by (simp add: constructor_def)
  have eq: "internal_createStream (env_at alice 50) constructor alice bob 1003 token 100 200
       = Inr (1, created_1003, [Pull 1 token alice ledger 1003])"
    by (simp add: actor_defs op_defs created_1003_def)
  from createStream_succeeds_exactly_when [OF h, of "env_at alice 50" alice bob 1003 token 100 200]
  have "unat (ratePerSecond (streams created_1003 1)) = 1003 div (200 - 100)
   \<and> 1 \<le> ratePerSecond (streams created_1003 1)
   \<and> remaining (streams created_1003 1) = 1003
   \<and> isActive (streams created_1003 1)"
    by (simp add: eq)
  moreover
  from createStream_succeeds_exactly_when [OF h, of "env_at alice 50" alice bob 99 token 100 200]
  have "\<forall>res. internal_createStream (env_at alice 50) constructor alice bob 99 token 100 200
              \<noteq> Inr res"
    by (simp add: actor_defs)
  ultimately show ?thesis using h eq by simp
qed

subsection \<open>Withdrawal\<close>

lemma created_1000_is_reached:
  "run [(env_at alice 50, CreateStream bob 1000 token 100 200)] deployed
     = (created_1000, [Pull 1 token alice ledger 1000])"
  by (simp add: actor_defs op_defs created_1000_def)

text \<open>
  C7: on an active stream, called for its recipient, with \<open>w\<close> the withdrawable amount
  now: the withdrawal fails with \<open>NothingToWithdraw\<close> exactly when \<open>w = 0\<close>. Otherwise a
  nonzero amount above \<open>w\<close> fails with \<open>AmountExceedsWithdrawable\<close>; an amount of 0
  withdraws exactly \<open>w\<close> and a nonzero amount of at most \<open>w\<close> withdraws exactly that
  amount: \<open>remaining\<close> goes down by it and it is pushed to the recipient, provided the
  token lets the push through (the call fails with \<open>TransferFailed\<close> if not).
\<close>

theorem withdraw_outcomes:
  assumes "isActive (streams s i)" and "recipient (streams s i) = r"
    and "withdrawableAmount e s i = Inr w"
  shows "(internal_withdrawFromStream e s i r a = Inl NothingToWithdraw \<longleftrightarrow> w = 0)
    \<and> (w \<noteq> 0 \<and> a \<noteq> 0 \<and> w < a \<longrightarrow>
          internal_withdrawFromStream e s i r a = Inl AmountExceedsWithdrawable)
    \<and> (w \<noteq> 0 \<and> a = 0 \<and> push_ok e (tokenAddress (streams s i)) r w \<longrightarrow>
          w \<le> remaining (streams s i)
          \<and> (\<exists>s'. internal_withdrawFromStream e s i r a
                     = Inr ((), s', [Push i (tokenAddress (streams s i)) r w])
                \<and> remaining (streams s' i) = remaining (streams s i) - w))
    \<and> (w \<noteq> 0 \<and> a \<noteq> 0 \<and> a \<le> w \<and> push_ok e (tokenAddress (streams s i)) r a \<longrightarrow>
          a \<le> remaining (streams s i)
          \<and> (\<exists>s'. internal_withdrawFromStream e s i r a
                     = Inr ((), s', [Push i (tokenAddress (streams s i)) r a])
                \<and> remaining (streams s' i) = remaining (streams s i) - a))
    \<and> (w \<noteq> 0 \<and> a \<le> w
          \<and> \<not> push_ok e (tokenAddress (streams s i)) r (if a = 0 then w else a) \<longrightarrow>
          internal_withdrawFromStream e s i r a = Inl TransferFailed)"
proof -
  from assms(3) have le: "w \<le> remaining (streams s i)" by (rule withdrawable_le_remaining)
  have le': "a \<le> remaining (streams s i)" if "a \<le> w"
    using that le by simp
  show ?thesis
    using assms le le'
    by (auto simp: internal_withdrawFromStream_def Let_def checked_sub_def word_gt_0
        linorder_not_le)
qed

theorem withdraw_outcomes_witness:
  "isActive (streams created_1000 1) \<and> recipient (streams created_1000 1) = bob
   \<and> withdrawableAmount (env_at bob 140) created_1000 1 = Inr 400
   \<and> internal_withdrawFromStream (env_at bob 140) created_1000 1 bob 500
       = Inl AmountExceedsWithdrawable
   \<and> internal_withdrawFromStream (env_at bob 140) created_1000 1 bob 150
       = Inr ((), withdrawn_150, [Push 1 token bob 150])
   \<and> (\<exists>s'. internal_withdrawFromStream (env_at bob 140) created_1000 1 bob 0
                = Inr ((), s', [Push 1 token bob 400])
          \<and> remaining (streams s' 1) = 600)
   \<and> withdrawableAmount (env_at bob 100) created_1000 1 = Inr 0
   \<and> internal_withdrawFromStream (env_at bob 100) created_1000 1 bob 0 = Inl NothingToWithdraw"
proof -
  have a: "isActive (streams created_1000 1)" and r: "recipient (streams created_1000 1) = bob"
    and t: "tokenAddress (streams created_1000 1) = token"
    by (simp_all add: created_1000_def)
  have w: "withdrawableAmount (env_at bob 140) created_1000 1 = Inr 400"
    by (simp add: created_1000_def actor_defs op_defs)
  have w0: "withdrawableAmount (env_at bob 100) created_1000 1 = Inr 0"
    by (simp add: created_1000_def actor_defs op_defs)
  have x: "internal_withdrawFromStream (env_at bob 140) created_1000 1 bob 150
       = Inr ((), withdrawn_150, [Push 1 token bob 150])"
    by (simp add: created_1000_def withdrawn_150_def actor_defs op_defs)
  from withdraw_outcomes [OF a r w, of 500]
  have "internal_withdrawFromStream (env_at bob 140) created_1000 1 bob 500
       = Inl AmountExceedsWithdrawable" by simp
  moreover from withdraw_outcomes [OF a r w0, of 0]
  have "internal_withdrawFromStream (env_at bob 100) created_1000 1 bob 0 = Inl NothingToWithdraw"
    by simp
  moreover from withdraw_outcomes [OF a r w, of 0]
  have "\<exists>s'. internal_withdrawFromStream (env_at bob 140) created_1000 1 bob 0
                = Inr ((), s', [Push 1 token bob 400])
          \<and> remaining (streams s' 1) = 600"
    by (simp add: t) (simp add: created_1000_def actor_defs)
  ultimately show ?thesis using a r w w0 x by simp
qed

text \<open>
  C8: a successful withdrawal on a stream leaves its start, stop and rate, and its
  sender, recipient, token and deposit, as they were; only \<open>remaining\<close> and the active
  flag of that record may differ, and nothing else in storage changes.
\<close>

theorem withdraw_frame:
  assumes "internal_withdrawFromStream e s i r a = Inr (u, s', ts)"
  shows "startTime (streams s' i) = startTime (streams s i)
    \<and> stopTime (streams s' i) = stopTime (streams s i)
    \<and> ratePerSecond (streams s' i) = ratePerSecond (streams s i)
    \<and> sender (streams s' i) = sender (streams s i)
    \<and> recipient (streams s' i) = recipient (streams s i)
    \<and> tokenAddress (streams s' i) = tokenAddress (streams s i)
    \<and> deposit (streams s' i) = deposit (streams s i)
    \<and> streams s' i = (streams s i)\<lparr>remaining := remaining (streams s' i),
                                    isActive := isActive (streams s' i)\<rparr>
    \<and> s' = s\<lparr>streams := (streams s)(i := streams s' i)\<rparr>"
  using assms
  by (auto simp: internal_withdrawFromStream_def Let_def bindE_Inr_iff split: if_splits)

theorem withdraw_frame_witness:
  "internal_withdrawFromStream (env_at bob 140) created_1000 1 bob 150
       = Inr ((), withdrawn_150, [Push 1 token bob 150])
   \<and> startTime (streams withdrawn_150 1) = startTime (streams created_1000 1)
   \<and> stopTime (streams withdrawn_150 1) = stopTime (streams created_1000 1)
   \<and> ratePerSecond (streams withdrawn_150 1) = ratePerSecond (streams created_1000 1)
   \<and> remaining (streams withdrawn_150 1) \<noteq> remaining (streams created_1000 1)"
proof -
  have x: "internal_withdrawFromStream (env_at bob 140) created_1000 1 bob 150
       = Inr ((), withdrawn_150, [Push 1 token bob 150])"
    by (simp add: created_1000_def withdrawn_150_def actor_defs op_defs)
  have "remaining (streams withdrawn_150 1) \<noteq> remaining (streams created_1000 1)"
    by (simp add: created_1000_def withdrawn_150_def)
  with withdraw_frame [OF x] x show ?thesis by simp
qed

subsection \<open>Delegated creation\<close>

lemma create_ignores_grants:
  assumes "internal_createStream e s a r d t b c = Inr res"
    and "nextStreamId s' = nextStreamId s"
  shows "\<exists>res'. internal_createStream e s' a r d t b c = Inr res'"
proof -
  from assms(1) have "\<exists>x. internal_createStream e s a r d t b c = Inr x" by blast
  then show ?thesis
    unfolding create_ok_iff by (simp add: assms(2))
qed

text \<open>
  C9: take a creation request that is valid in itself, made by a delegate on behalf of a
  sender who has not granted the delegate the \<open>createStreamOnBehalf\<close> selector. The call
  fails as unauthorized. Once the sender's grant has gone through, the identical call
  succeeds. Once the sender has revoked the grant, whether before or after that
  successful call, the identical call fails as unauthorized again.
\<close>

theorem createStreamOnBehalf_follows_grant:
  assumes "internal_createStream e s a r d t b c = Inr res"
    and "msg_sender e = dg"
    and "\<not> isAuthorizedDelegate s a dg createStreamOnBehalf_selector"
    and "msg_sender eg = a"
    and "authorizeDelegate eg s dg createStreamOnBehalf_selector = Inr (u1, s1, ts1)"
  shows "createStreamOnBehalf e s a r d t b c = Inl NotAuthorizedToCreate
    \<and> (\<exists>i s2 ts2. createStreamOnBehalf e s1 a r d t b c = Inr (i, s2, ts2)
          \<and> (\<forall>er. msg_sender er = a \<longrightarrow>
                (\<exists>s3. revokeDelegate er s2 dg createStreamOnBehalf_selector = Inr ((), s3, [])
                   \<and> createStreamOnBehalf e s3 a r d t b c = Inl NotAuthorizedToCreate)))
    \<and> (\<forall>er. msg_sender er = a \<longrightarrow>
          (\<exists>s3. revokeDelegate er s1 dg createStreamOnBehalf_selector = Inr ((), s3, [])
             \<and> createStreamOnBehalf e s3 a r d t b c = Inl NotAuthorizedToCreate))"
proof -
  have denied: "createStreamOnBehalf e s a r d t b c = Inl NotAuthorizedToCreate"
    using assms(2,3) by (simp add: createStreamOnBehalf_def)
  from assms(4,5) have auth1: "isAuthorizedDelegate s1 a dg createStreamOnBehalf_selector"
    by (auto simp: authorizeDelegate_def isAuthorizedDelegate_def split: if_splits)
  from assms(5) have "nextStreamId s1 = nextStreamId s"
    by (auto simp: authorizeDelegate_def split: if_splits)
  with assms(1) obtain res' where "internal_createStream e s1 a r d t b c = Inr res'"
    using create_ignores_grants by blast
  moreover obtain i s2 ts2 where res': "res' = (i, s2, ts2)" by (cases res')
  ultimately have int: "internal_createStream e s1 a r d t b c = Inr (i, s2, ts2)" by simp
  then have ok: "createStreamOnBehalf e s1 a r d t b c = Inr (i, s2, ts2)"
    using auth1 assms(2) by (simp add: createStreamOnBehalf_def)
  have revoked: "\<exists>s3. revokeDelegate er sx dg createStreamOnBehalf_selector = Inr ((), s3, [])
             \<and> createStreamOnBehalf e s3 a r d t b c = Inl NotAuthorizedToCreate"
    if "msg_sender er = a" for er sx
    using that assms(2)
    by (simp add: revokeDelegate_def createStreamOnBehalf_def isAuthorizedDelegate_def)
  from denied ok revoked show ?thesis by blast
qed

theorem createStreamOnBehalf_follows_grant_witness:
  "internal_createStream (env_at carol 50) constructor alice bob 1000 token 100 200
     = Inr (1, created_1000, [Pull 1 token alice ledger 1000])
   \<and> msg_sender (env_at carol 50) = carol
   \<and> \<not> isAuthorizedDelegate constructor alice carol createStreamOnBehalf_selector
   \<and> msg_sender (env_at alice 40) = alice
   \<and> authorizeDelegate (env_at alice 40) constructor carol createStreamOnBehalf_selector
       = Inr ((), granted, [])
   \<and> createStreamOnBehalf (env_at carol 50) constructor alice bob 1000 token 100 200
       = Inl NotAuthorizedToCreate
   \<and> (\<exists>res. createStreamOnBehalf (env_at carol 50) granted alice bob 1000 token 100 200
               = Inr res)
   \<and> (\<exists>s3. revokeDelegate (env_at alice 60) granted carol createStreamOnBehalf_selector
               = Inr ((), s3, [])
          \<and> createStreamOnBehalf (env_at carol 50) s3 alice bob 1000 token 100 200
               = Inl NotAuthorizedToCreate)"
proof -
  have v: "internal_createStream (env_at carol 50) constructor alice bob 1000 token 100 200
     = Inr (1, created_1000, [Pull 1 token alice ledger 1000])"
    by (simp add: actor_defs op_defs created_1000_def)
  have c: "msg_sender (env_at carol 50) = carol" by (simp add: env_at_def)
  have n: "\<not> isAuthorizedDelegate constructor alice carol createStreamOnBehalf_selector"
    by (simp add: isAuthorizedDelegate_def constructor_def)
  have a: "msg_sender (env_at alice 40) = alice" by (simp add: env_at_def)
  have a': "msg_sender (env_at alice 60) = alice" by (simp add: env_at_def)
  have g: "authorizeDelegate (env_at alice 40) constructor carol createStreamOnBehalf_selector
       = Inr ((), granted, [])"
    by (simp add: authorizeDelegate_def granted_def env_at_def carol_def)
  from createStreamOnBehalf_follows_grant [OF v c n a g] a'
  have "createStreamOnBehalf (env_at carol 50) constructor alice bob 1000 token 100 200
       = Inl NotAuthorizedToCreate
   \<and> (\<exists>res. createStreamOnBehalf (env_at carol 50) granted alice bob 1000 token 100 200
               = Inr res)
   \<and> (\<exists>s3. revokeDelegate (env_at alice 60) granted carol createStreamOnBehalf_selector
               = Inr ((), s3, [])
          \<and> createStreamOnBehalf (env_at carol 50) s3 alice bob 1000 token 100 200
               = Inl NotAuthorizedToCreate)"
    by blast
  with v c n a g show ?thesis by blast
qed

subsection \<open>Cancellation\<close>

text \<open>
  C1 asks that a cancel pays the recipient \<open>withdrawable(now)\<close> when now is after the
  start, and the sender the rest. The contract clears \<open>isActive\<close> in storage before it
  calls \<open>withdrawableAmount\<close>, which therefore answers 0: in the stream of 1000 over 100
  to 200, cancelled by the sender at 140 when 400 is withdrawable, the recipient is paid
  nothing and the sender is refunded the whole 1000.
\<close>

theorem cancel_midstream_pays_recipient_nothing:
  "isActive (streams created_1000 1)
   \<and> startTime (streams created_1000 1) < block_timestamp (env_at alice 140)
   \<and> withdrawableAmount (env_at alice 140) created_1000 1 = Inr 400
   \<and> cancelStream (env_at alice 140) created_1000 1
       = Inr ((), cancelled_1000, [Push 1 token alice 1000])"
  by (simp add: created_1000_def cancelled_1000_def actor_defs op_defs)

theorem cancel_midstream_pays_recipient_nothing_witness:
  "\<exists>s' ts. cancelStream (env_at alice 140) created_1000 1 = Inr ((), s', ts)
      \<and> paid_to ts 1 bob = 0 \<and> paid_to ts 1 alice = 1000
      \<and> withdrawableAmount (env_at alice 140) created_1000 1 = Inr 400"
proof -
  have "paid_to [Push 1 token alice 1000] 1 bob = 0"
    and "paid_to [Push 1 token alice 1000] 1 alice = 1000"
    by (simp_all add: paid_to_def actor_defs)
  with cancel_midstream_pays_recipient_nothing show ?thesis by blast
qed

subsection \<open>Termination and resume\<close>

text \<open>
  C3 asks that a terminated stream is never active again and that no funds move on it.
  \<open>resumeStream\<close> only checks that the record is inactive, that the caller is the
  sender and that \<open>remaining\<close> is positive: the stream of 1003, deactivated by the
  withdrawal at its stop time with 3 remaining, is made active again by the sender, and
  her cancel then moves the 3 to her.
\<close>

theorem terminated_stream_is_reanimated:
  "chronological history_revived_cancelled
   \<and> reachable (run history_revived_cancelled deployed)
   \<and> snd (run history_drained deployed)
       = [Pull 1 token alice ledger 1003, Push 1 token bob 1000]
   \<and> \<not> isActive (streams (fst (run history_drained deployed)) 1)
   \<and> remaining (streams (fst (run history_drained deployed)) 1) = 3
   \<and> stopTime (streams (fst (run history_drained deployed)) 1) = 200
   \<and> isActive (streams (fst (run history_revived deployed)) 1)
   \<and> startTime (streams (fst (run history_revived deployed)) 1) = 200
   \<and> stopTime (streams (fst (run history_revived deployed)) 1) = 400
   \<and> snd (run history_revived_cancelled deployed)
       = [Pull 1 token alice ledger 1003, Push 1 token bob 1000, Push 1 token alice 3]
   \<and> remaining (streams (fst (run history_revived_cancelled deployed)) 1) = 0"
proof -
  have "reachable (run history_revived_cancelled deployed)"
    by (rule reachable_run [OF reachable_deployed])
  then show ?thesis
    by (simp add: history_revived_cancelled_def history_revived_def history_drained_def
        actor_defs op_defs)
qed

theorem terminated_stream_is_reanimated_witness:
  "\<not> isActive (streams (fst (run history_drained deployed)) 1)
   \<and> isActive (streams (fst (run history_revived deployed)) 1)
   \<and> paid_to (snd (run history_drained deployed)) 1 alice = 0
   \<and> paid_to (snd (run history_revived_cancelled deployed)) 1 alice = 3"
proof -
  have "paid_to [Pull 1 token alice ledger 1003, Push 1 token bob 1000] 1 alice = 0"
    and "paid_to [Pull 1 token alice ledger 1003, Push 1 token bob 1000,
                  Push 1 token alice 3] 1 alice = 3"
    by (simp_all add: paid_to_def actor_defs)
  with terminated_stream_is_reanimated show ?thesis by simp
qed

subsection \<open>Pause and resume\<close>

text \<open>
  C4 asks that a pause followed at once by a resume keeps the rate and the withdrawable
  amount. The rate is kept. But \<open>resumeStream\<close> moves \<open>startTime\<close> to now while
  \<open>withdrawableAmount\<close> still subtracts everything disbursed since creation from what
  has accrued since \<open>startTime\<close>: after Bob has withdrawn 400 at 140, the withdrawable
  amount is 0 before the pause and 0 while paused, and after the resume in the same
  second the query panics on the subtraction.
\<close>

theorem pause_then_resume_breaks_withdrawable:
  "chronological history_paused_resumed
   \<and> reachable (run history_paused_resumed deployed)
   \<and> isActive (streams (fst (run history_withdrawn deployed)) 1)
   \<and> withdrawableAmount (env_at bob 140) (fst (run history_withdrawn deployed)) 1 = Inr 0
   \<and> \<not> isActive (streams (fst (run history_paused deployed)) 1)
   \<and> withdrawableAmount (env_at bob 140) (fst (run history_paused deployed)) 1 = Inr 0
   \<and> isActive (streams (fst (run history_paused_resumed deployed)) 1)
   \<and> remaining (streams (fst (run history_paused_resumed deployed)) 1) = 600
   \<and> ratePerSecond (streams (fst (run history_paused_resumed deployed)) 1)
       = ratePerSecond (streams (fst (run history_withdrawn deployed)) 1)
   \<and> withdrawableAmount (env_at bob 140) (fst (run history_paused_resumed deployed)) 1
       = Inl Panic"
proof -
  have "reachable (run history_paused_resumed deployed)"
    by (rule reachable_run [OF reachable_deployed])
  then show ?thesis
    by (simp add: history_paused_resumed_def history_paused_def history_withdrawn_def
        actor_defs op_defs)
qed

theorem pause_then_resume_breaks_withdrawable_witness:
  "withdrawableAmount (env_at bob 140) (fst (run history_paused_resumed deployed)) 1
     \<noteq> withdrawableAmount (env_at bob 140) (fst (run history_withdrawn deployed)) 1
   \<and> withdrawableAmount (env_at bob 140) (fst (run history_paused_resumed deployed)) 1
     \<noteq> withdrawableAmount (env_at bob 140) (fst (run history_paused deployed)) 1"
  using pause_then_resume_breaks_withdrawable by simp

text \<open>
  C5 asks that in every reachable ledger, at every query time, the vested amount is at
  least the amount already disbursed, so that \<open>withdrawableAmount\<close> never underflows.
  After a pause that has paid out 400 and a resume at 150, the stream is active with
  start 150: nothing has vested since, 400 is disbursed, and the query panics, as do
  \<open>getStreamTimeInfo\<close> and any withdrawal, at 150 and still at 180.
\<close>

theorem withdrawable_underflows_after_resume:
  "chronological history_resumed_later
   \<and> reachable (run history_resumed_later deployed)
   \<and> snd (run history_resumed_later deployed)
       = [Pull 1 token alice ledger 1000, Push 1 token bob 400]
   \<and> isActive (streams (fst (run history_resumed_later deployed)) 1)
   \<and> startTime (streams (fst (run history_resumed_later deployed)) 1) = 150
   \<and> stopTime (streams (fst (run history_resumed_later deployed)) 1) = 210
   \<and> deposit (streams (fst (run history_resumed_later deployed)) 1) = 1000
   \<and> remaining (streams (fst (run history_resumed_later deployed)) 1) = 600
   \<and> withdrawableAmount (env_at bob 150) (fst (run history_resumed_later deployed)) 1
       = Inl Panic
   \<and> withdrawableAmount (env_at bob 180) (fst (run history_resumed_later deployed)) 1
       = Inl Panic
   \<and> getStreamTimeInfo (env_at bob 180) (fst (run history_resumed_later deployed)) 1
       = Inl Panic
   \<and> withdrawFromStream (env_at bob 180) (fst (run history_resumed_later deployed)) 1 0
       = Inl Panic"
proof -
  have "reachable (run history_resumed_later deployed)"
    by (rule reachable_run [OF reachable_deployed])
  then show ?thesis
    by (simp add: history_resumed_later_def actor_defs op_defs)
qed

theorem withdrawable_underflows_after_resume_witness:
  "\<exists>w e. reachable w \<and> isActive (streams (fst w) 1)
      \<and> withdrawableAmount e (fst w) 1 = Inl Panic"
  using withdrawable_underflows_after_resume by blast

end
